theory Spec2Isabelle
  imports Main
begin

section \<open>JavaScript strings\<close>

text \<open>
  A JavaScript string is a sequence of code units, modelled by \<^typ>\<open>string\<close>: the
  model covers the documents whose code units are below 256. Offsets are JavaScript
  numbers that hold integers, modelled by \<^typ>\<open>int\<close> (an offset may be \<open>-1\<close>).
\<close>

text \<open>\<open>s.charAt(ix)\<close>: the empty string out of range, \<open>None\<close> here.\<close>

definition charAt :: "string \<Rightarrow> int \<Rightarrow> char option" where
  "charAt s ix = (if 0 \<le> ix \<and> ix < int (length s) then Some (s ! nat ix) else None)"

text \<open>\<open>s.substring(a, b)\<close>: both ends are clamped to the string and swapped when
  \<open>a > b\<close>.\<close>

definition clamp_index :: "string \<Rightarrow> int \<Rightarrow> nat" where
  "clamp_index s i = nat (min (max i 0) (int (length s)))"

definition substring :: "string \<Rightarrow> int \<Rightarrow> int \<Rightarrow> string" where
  "substring s a b =
     (let x = clamp_index s a; y = clamp_index s b
      in take (max x y - min x y) (drop (min x y) s))"

text \<open>\<open>s.substr(start, n)\<close>: a negative start counts from the end.\<close>

definition substr :: "string \<Rightarrow> int \<Rightarrow> nat \<Rightarrow> string" where
  "substr s start n =
     (let len = int (length s);
          st = (if start < 0 then max (len + start) 0 else min start len)
      in take n (drop (nat st) s))"

text \<open>The class \<open>\s\<close> of a regular expression, on code units below 256: tab, line
  feed, vertical tab, form feed, carriage return, space and no-break space.\<close>

definition isSpace :: "char \<Rightarrow> bool" where
  "isSpace c = (c = CHR 0x09 \<or> c = CHR 0x0A \<or> c = CHR 0x0B \<or> c = CHR 0x0C
                \<or> c = CHR 0x0D \<or> c = CHR 0x20 \<or> c = CHR 0xA0)"

section \<open>The editor\<close>

text \<open>
  Modelled from the spec: the editor surface (\<open>zen_editor.js\<close> is not among the
  sources), an in-memory buffer with the operations of the spec's section 6. The record
  holds what the getters return; \<open>calls\<close> logs every mutating call the actions make,
  oldest first.
\<close>

datatype editor_call =
    ReplaceContent string int int
  | CreateSelection int int
  | SetCaretPos int

record editor =
  content :: string
  sel_start :: int
  sel_end :: int
  caret :: int
  syn :: string
  calls :: "editor_call list"

definition getContent :: "editor \<Rightarrow> string" where
  "getContent ed = content ed"

definition getCaretPos :: "editor \<Rightarrow> int" where
  "getCaretPos ed = caret ed"

definition getSelectionRange :: "editor \<Rightarrow> int \<times> int" where
  "getSelectionRange ed = (sel_start ed, sel_end ed)"

definition getSyntax :: "editor \<Rightarrow> string" where
  "getSyntax ed = syn ed"

definition setCaretPos :: "int \<Rightarrow> editor \<Rightarrow> editor" where
  "setCaretPos pos ed =
     ed\<lparr>caret := pos, sel_start := pos, sel_end := pos, calls := calls ed @ [SetCaretPos pos]\<rparr>"

definition createSelection :: "int \<Rightarrow> int \<Rightarrow> editor \<Rightarrow> editor" where
  "createSelection s e ed =
     ed\<lparr>sel_start := s, sel_end := e, caret := e, calls := calls ed @ [CreateSelection s e]\<rparr>"

definition replaceContent :: "string \<Rightarrow> int \<Rightarrow> int \<Rightarrow> editor \<Rightarrow> editor" where
  "replaceContent text s e ed =
     ed\<lparr>content := substring (content ed) 0 s @ text
                       @ substring (content ed) e (int (length (content ed))),
        calls := calls ed @ [ReplaceContent text s e]\<rparr>"

text \<open>The current line is the one the caret is on: from after the last line terminator
  before the caret to the first line terminator at or after it.\<close>

definition isNewline :: "char \<Rightarrow> bool" where
  "isNewline c = (c = CHR 0x0A \<or> c = CHR 0x0D)"

definition getCurrentLine :: "editor \<Rightarrow> string" where
  "getCurrentLine ed =
     (let head = substring (content ed) 0 (caret ed);
          rest = substring (content ed) (caret ed) (int (length (content ed)))
      in rev (takeWhile (\<lambda>c. \<not> isNewline c) (rev head))
         @ takeWhile (\<lambda>c. \<not> isNewline c) rest)"

section \<open>Edit points\<close>

text \<open>\<open>getLine(ix)\<close> of \<open>findNewEditPoint\<close>: \<open>start\<close> walks down from \<open>ix\<close> to the
  nearest line terminator (or to \<open>-1\<close>).\<close>

function getLine_start :: "string \<Rightarrow> int \<Rightarrow> int" where
  "getLine_start cont start =
     (if start \<ge> 0
      then (if charAt cont start = Some CHR 0x0A \<or> charAt cont start = Some CHR 0x0D
            then start
            else getLine_start cont (start - 1))
      else start)"
  by pat_completeness auto
termination
  by (relation "measure (\<lambda>(cont, start). nat (start + 1))") auto

definition getLine :: "string \<Rightarrow> int \<Rightarrow> string" where
  "getLine cont ix = substring cont (getLine_start cont ix) ix"

text \<open>\<open>re_empty_line = /^\s+$/\<close>.\<close>

definition re_empty_line :: "string \<Rightarrow> bool" where
  "re_empty_line s = (s \<noteq> [] \<and> list_all isSpace s)"

text \<open>The \<open>switch\<close> of the loop body: the value \<open>next_point\<close> has after it, \<open>-1\<close>
  when no case assigns it.\<close>

definition edit_point_at :: "string \<Rightarrow> int \<Rightarrow> int" where
  "edit_point_at cont cur_point =
     (let cur_char = charAt cont cur_point;
          next_char = charAt cont (cur_point + 1);
          prev_char = charAt cont (cur_point - 1)
      in if cur_char = Some CHR 0x22 \<or> cur_char = Some CHR 0x27
         then (if next_char = cur_char \<and> prev_char = Some CHR ''=''
               then cur_point + 1 else -1)
         else if cur_char = Some CHR ''>''
         then (if next_char = Some CHR ''<'' then cur_point + 1 else -1)
         else if cur_char = Some CHR 0x0A \<or> cur_char = Some CHR 0x0D
         then (if re_empty_line (getLine cont (cur_point - 1)) then cur_point else -1)
         else -1)"

text \<open>The \<open>while\<close> loop. \<open>inc\<close> is never 0 here (\<open>inc = inc || 1\<close>); the first
  test only makes the recursion total.\<close>

function edit_point_loop :: "string \<Rightarrow> int \<Rightarrow> int \<Rightarrow> int" where
  "edit_point_loop cont inc cur_point =
     (if inc = 0 then -1
      else if cur_point < int (length cont) \<and> cur_point > 0
      then (let cur = cur_point + inc; next_point = edit_point_at cont cur
            in if next_point \<noteq> -1 then next_point else edit_point_loop cont inc cur)
      else -1)"
  by pat_completeness auto
termination
  by (relation "measure (\<lambda>(cont, inc, cur).
        if inc > 0 then nat (int (length cont) - cur) else nat cur)") auto

text \<open>\<open>findNewEditPoint(editor, inc, offset)\<close>; an argument left out is \<open>None\<close>.\<close>

definition findNewEditPoint :: "editor \<Rightarrow> int option \<Rightarrow> int option \<Rightarrow> int" where
  "findNewEditPoint ed inc offset =
     (let inc' = (case inc of None \<Rightarrow> 1 | Some i \<Rightarrow> if i = 0 then 1 else i);
          offset' = (case offset of None \<Rightarrow> 0 | Some k \<Rightarrow> k);
          cur_point = getCaretPos ed + offset'
      in edit_point_loop (getContent ed) inc' cur_point)"

definition prevEditPoint :: "editor \<Rightarrow> editor" where
  "prevEditPoint ed =
     (let cur_pos = getCaretPos ed;
          new_point = findNewEditPoint ed (Some (-1)) None;
          new_point = (if new_point = cur_pos
                       then findNewEditPoint ed (Some (-1)) (Some (-2)) else new_point)
      in if new_point \<noteq> -1 then setCaretPos new_point ed else ed)"

definition nextEditPoint :: "editor \<Rightarrow> editor" where
  "nextEditPoint ed =
     (let new_point = findNewEditPoint ed (Some 1) None
      in if new_point \<noteq> -1 then setCaretPos new_point ed else ed)"

section \<open>Regular expressions of the actions\<close>

text \<open>\<open>str.replace(/\s{2,}/, ' ')\<close>: the pattern has no \<open>g\<close> flag, so only the leftmost
  match, a whole run of two or more white-space characters, is replaced.\<close>

fun collapse_first_run :: "string \<Rightarrow> string" where
  "collapse_first_run [] = []"
| "collapse_first_run [c] = [c]"
| "collapse_first_run (c # d # cs) =
     (if isSpace c \<and> isSpace d then CHR '' '' # dropWhile isSpace cs
      else c # collapse_first_run (d # cs))"

text \<open>The length of the match of \<open>/^<!--\s*/\<close>, 0 when the pattern does not match.\<close>

definition comment_open_match :: "string \<Rightarrow> nat" where
  "comment_open_match str =
     (if take 4 str = ''<!--'' then 4 + length (takeWhile isSpace (drop 4 str)) else 0)"

text \<open>\<open>str.replace(/\s*-->$/, '')\<close>: the leftmost offset from which a white-space run
  and \<open>-->\<close> reach the end of the string; everything from there on is removed.\<close>

fun strip_comment_close :: "string \<Rightarrow> string" where
  "strip_comment_close [] = []"
| "strip_comment_close (c # cs) =
     (if dropWhile isSpace (c # cs) = ''-->'' then [] else c # strip_comment_close cs)"

text \<open>\<open>removeComment(str)\<close> of \<open>toggleHTMLComment\<close>, with the variable \<open>caret_pos\<close> it
  updates in the callback of the first replacement.\<close>

definition removeComment :: "string \<Rightarrow> int \<Rightarrow> string \<times> int" where
  "removeComment str caret_pos =
     (let n = comment_open_match str
      in (strip_comment_close (drop n str), caret_pos - int n))"

text \<open>The length of the match of \<open>/<!--\s+|\s+-->/\<close> at the head of the string, 0 when
  there is none: \<open><!--\<close> and the white-space run after it, which must not be empty, or a
  non-empty white-space run and the \<open>-->\<close> after it.\<close>

definition marker_match :: "string \<Rightarrow> nat" where
  "marker_match str =
     (if take 4 str = ''<!--'' \<and> takeWhile isSpace (drop 4 str) \<noteq> []
      then 4 + length (takeWhile isSpace (drop 4 str))
      else if takeWhile isSpace str \<noteq> [] \<and> take 3 (dropWhile isSpace str) = ''-->''
      then length (takeWhile isSpace str) + 3
      else 0)"

text \<open>\<open>str.replace(/<!--\s+|\s+-->/g, '')\<close>: every match, left to right, is removed.\<close>

function strip_markers :: "string \<Rightarrow> string" where
  "strip_markers str =
     (if str = [] then []
      else if marker_match str > 0 then strip_markers (drop (marker_match str) str)
      else hd str # strip_markers (tl str))"
  by pat_completeness auto
termination
  by (relation "measure length") auto

text \<open>\<open>lines.join(sep)\<close>.\<close>

fun join :: "string \<Rightarrow> string list \<Rightarrow> string" where
  "join sep [] = []"
| "join sep [l] = l"
| "join sep (l # m # ls) = l @ sep @ join sep (m # ls)"

section \<open>Collaborators\<close>

text \<open>\<open>zen_coding.js\<close> and \<open>html_matcher.js\<close> are not among the sources: what the actions
  call of them is a parameter of the model.\<close>

record zen_coding =
  splitByLines :: "string \<Rightarrow> string list"
  getNewline :: string

record tag =
  tag_start :: int
  tag_end :: int
  tag_type :: string

record last_match =
  opening_tag :: "tag option"
  closing_tag :: "tag option"

text \<open>\<open>HTMLPairMatcher(content, pos)\<close> gives a range or \<open>null\<close> and
  \<open>HTMLPairMatcher.find\<close> a range; both may overwrite \<open>HTMLPairMatcher.last_match\<close>, so
  they take the cache and return it. \<open>HTMLPairMatcher.getTags\<close> gives the pair of tags
  or \<open>null\<close>.\<close>

record matcher =
  HTMLPairMatcher :: "string \<Rightarrow> int \<Rightarrow> last_match \<Rightarrow> (int \<times> int) option \<times> last_match"
  find :: "string \<Rightarrow> int \<Rightarrow> last_match \<Rightarrow> (int \<times> int) \<times> last_match"
  getTags :: "string \<Rightarrow> int \<Rightarrow> (tag option \<times> tag option) option"

text \<open>Modelled from the spec: \<open>splitByLines\<close> of the abbreviation engine, which "splits
  text into lines on any newline convention": CR LF, a lone CR and a lone LF each end a
  line.\<close>

fun split_lines :: "string \<Rightarrow> string list" where
  "split_lines [] = [[]]"
| "split_lines [c] = (if isNewline c then [[], []] else [[c]])"
| "split_lines (c # d # cs) =
     (if c = CHR 0x0D \<and> d = CHR 0x0A then [] # split_lines cs
      else if isNewline c then [] # split_lines (d # cs)
      else (case split_lines (d # cs) of
              [] \<Rightarrow> [[c]]
            | l # ls \<Rightarrow> (c # l) # ls))"

definition zen_coding_spec :: zen_coding where
  "zen_coding_spec = \<lparr>splitByLines = split_lines, getNewline = [CHR 0x0A]\<rparr>"

section \<open>Unindent\<close>

text \<open>\<open>(editor.getCurrentLine().match(/^(\s+)/) || [''])[0]\<close>.\<close>

definition getCurrentLinePadding :: "editor \<Rightarrow> string" where
  "getCurrentLinePadding ed = takeWhile isSpace (getCurrentLine ed)"

text \<open>\<open>lines[i].search(pad) == 0\<close>: \<open>pad\<close> holds white space only, which a regular
  expression matches literally, so the test is that \<open>pad\<close> is a prefix of the line.\<close>

definition unindent :: "zen_coding \<Rightarrow> editor \<Rightarrow> string \<Rightarrow> string" where
  "unindent Z ed text =
     (let pad = getCurrentLinePadding ed;
          lines = splitByLines Z text
      in join (getNewline Z)
           (map (\<lambda>l. if take (length pad) l = pad then drop (length pad) l else l) lines))"

section \<open>Tag pairs\<close>

text \<open>\<open>toLowerCase\<close> on code units below 256: the letters A to Z and the upper-case
  letters of Latin-1 move up by 32.\<close>

definition lower_char :: "char \<Rightarrow> char" where
  "lower_char c =
     (let n = (of_char c :: nat)
      in if (65 \<le> n \<and> n \<le> 90) \<or> (192 \<le> n \<and> n \<le> 222 \<and> n \<noteq> 215)
         then char_of (n + 32) else c)"

definition toLowerCase :: "string \<Rightarrow> string" where
  "toLowerCase s = map lower_char s"

text \<open>\<open>str.indexOf(c, from)\<close> for a one-character pattern.\<close>

fun index_from :: "string \<Rightarrow> char \<Rightarrow> nat \<Rightarrow> int" where
  "index_from [] c i = -1"
| "index_from (x # xs) c i = (if x = c then int i else index_from xs c (Suc i))"

definition indexOf :: "string \<Rightarrow> char \<Rightarrow> int \<Rightarrow> int" where
  "indexOf s c from = (let k = clamp_index s from in index_from (drop k s) c k)"

text \<open>\<open>matchPair(editor, direction)\<close>, with the cache \<open>HTMLPairMatcher.last_match\<close> it
  reads passed in and returned. The result is the value returned, the editor and the
  cache.\<close>

definition matchPair ::
    "matcher \<Rightarrow> string option \<Rightarrow> last_match \<Rightarrow> editor \<Rightarrow> bool \<times> editor \<times> last_match" where
  "matchPair M direction lm ed =
     (let direction = toLowerCase (case direction of None \<Rightarrow> ''out'' | Some d \<Rightarrow>
                                     if d = [] then ''out'' else d);
          (range_start, range_end) = getSelectionRange ed;
          cursor = range_end;
          cont = getContent ed;
          old_open_tag = opening_tag lm;
          old_close_tag = closing_tag lm;
          finish = (\<lambda>(range, lm').
            case range of
              None \<Rightarrow> (False, ed, lm')
            | Some (r0, r1) \<Rightarrow>
                if r0 \<noteq> -1 then (True, createSelection r0 r1 ed, lm') else (False, ed, lm'))
      in case old_open_tag of
           None \<Rightarrow> finish (HTMLPairMatcher M cont cursor lm)
         | Some open_tag \<Rightarrow>
             if direction = ''in'' \<and> range_start \<noteq> range_end
             then (case old_close_tag of
                     None \<Rightarrow> (False, ed, lm)
                   | Some close_tag \<Rightarrow>
                       if tag_start open_tag = range_start
                       then (if charAt cont (tag_end open_tag) = Some CHR ''<''
                             then (let (r, lm1) = find M cont (tag_end open_tag + 1) lm
                                   in if fst r = tag_end open_tag \<and> snd r = tag_start close_tag
                                      then finish (HTMLPairMatcher M cont (tag_end open_tag + 1) lm1)
                                      else finish (Some (tag_end open_tag, tag_start close_tag), lm1))
                             else finish (Some (tag_end open_tag, tag_start close_tag), lm))
                       else (let new_cursor =
                                   indexOf (substring cont 0 (tag_start close_tag)) CHR ''<''
                                     (tag_end open_tag);
                                 search_pos = (if new_cursor \<noteq> -1 then new_cursor + 1
                                               else tag_end open_tag)
                             in finish (HTMLPairMatcher M cont search_pos lm)))
             else finish (HTMLPairMatcher M cont cursor lm))"

section \<open>Merging lines\<close>

text \<open>\<open>mergeLines(editor)\<close>. A \<open>pair\<close> that is \<open>null\<close> leaves the selection as it was.\<close>

definition mergeLines ::
    "zen_coding \<Rightarrow> matcher \<Rightarrow> last_match \<Rightarrow> editor \<Rightarrow> editor \<times> last_match" where
  "mergeLines Z M lm ed =
     (let (s0, e0) = getSelectionRange ed;
          ((s, e), lm') =
            (if s0 = e0
             then (case HTMLPairMatcher M (getContent ed) (getCaretPos ed) lm of
                     (Some (p0, p1), lm1) \<Rightarrow> ((p0, p1), lm1)
                   | (None, lm1) \<Rightarrow> ((s0, e0), lm1))
             else ((s0, e0), lm))
      in if s \<noteq> e
         then (let text = substring (getContent ed) s e;
                   lines = splitByLines Z text;
                   lines = (case lines of [] \<Rightarrow> [] | l # ls \<Rightarrow> l # map (dropWhile isSpace) ls);
                   text = collapse_first_run (concat lines);
                   ed = replaceContent text s e ed;
                   ed = createSelection s (s + int (length text)) ed
               in (ed, lm'))
         else (ed, lm'))"

section \<open>Toggling comments\<close>

definition hasMatch :: "string \<Rightarrow> string \<Rightarrow> int \<Rightarrow> bool" where
  "hasMatch cont str start = (substr cont start (length str) = str)"

text \<open>\<open>while (from--)\<close> from a \<open>from\<close> that is not negative: the offsets below it,
  downwards; \<open>-1\<close> is the value \<open>comment_start\<close> keeps when none matches.\<close>

fun comment_start_loop :: "string \<Rightarrow> nat \<Rightarrow> int" where
  "comment_start_loop cont 0 = -1"
| "comment_start_loop cont (Suc n) =
     (if charAt cont (int n) = Some CHR ''<'' \<and> hasMatch cont ''<!--'' (int n)
      then int n
      else comment_start_loop cont n)"

text \<open>\<open>while (content_len >= from++)\<close>: the result is \<open>comment_end\<close>.\<close>

function comment_end_loop :: "string \<Rightarrow> int \<Rightarrow> int" where
  "comment_end_loop cont from =
     (if int (length cont) \<ge> from
      then (if charAt cont (from + 1) = Some CHR ''-'' \<and> hasMatch cont ''-->'' (from + 1)
            then from + 1 + 3
            else comment_end_loop cont (from + 1))
      else -1)"
  by pat_completeness auto
termination
  by (relation "measure (\<lambda>(cont, from). nat (int (length cont) + 1 - from))") auto

text \<open>The two searches, for a start \<open>rng.start\<close> that is not negative: the values
  \<open>comment_start\<close> and \<open>comment_end\<close> have after them.\<close>

definition enclosing_comment :: "string \<Rightarrow> int \<Rightarrow> int \<times> int" where
  "enclosing_comment cont s =
     (let comment_start = comment_start_loop cont (nat s);
          comment_end = (if comment_start \<noteq> -1
                         then comment_end_loop cont comment_start else -1)
      in (comment_start, comment_end))"

text \<open>The range \<open>rng\<close> after the first \<open>if\<close>: the selection, or the tag (pair) at the
  caret when nothing is selected and the matcher finds one.\<close>

definition toggle_range :: "matcher \<Rightarrow> editor \<Rightarrow> int \<times> int" where
  "toggle_range M ed =
     (let (s, e) = getSelectionRange ed
      in if s = e
         then (case getTags M (getContent ed) (getCaretPos ed) of
                 Some (Some t0, Some t1) \<Rightarrow> (tag_start t0, tag_end t1)
               | Some (Some t0, None) \<Rightarrow> (tag_start t0, tag_end t0)
               | _ \<Rightarrow> (s, e))
         else (s, e))"

text \<open>The last block: the three calls made once \<open>new_content\<close> is set. \<open>unindent\<close>
  reads the current line after the first \<open>setCaretPos\<close>.\<close>

definition replace_toggled ::
    "zen_coding \<Rightarrow> editor \<Rightarrow> string \<Rightarrow> int \<Rightarrow> int \<Rightarrow> int \<Rightarrow> editor" where
  "replace_toggled Z ed new_content s e caret_pos =
     (let ed = setCaretPos s ed;
          ed = replaceContent (unindent Z ed new_content) s e ed
      in setCaretPos caret_pos ed)"

text \<open>\<open>toggleHTMLComment(editor)\<close>. \<open>new_content\<close> is a string on every path through
  \<open>rng.start != rng.end\<close>, so the test \<open>new_content !== null\<close> holds there. The search
  for the comment start does not end when \<open>rng.start\<close> is negative (\<open>from--\<close> stays
  truthy): the result is \<open>None\<close> then.\<close>

definition toggleHTMLComment :: "zen_coding \<Rightarrow> matcher \<Rightarrow> editor \<Rightarrow> (bool \<times> editor) option" where
  "toggleHTMLComment Z M ed =
     (let (s, e) = toggle_range M ed;
          cont = getContent ed;
          caret_pos = getCaretPos ed
      in if s \<noteq> e
         then (if hasMatch cont ''<!--'' s
               then (let (new_content, caret_pos) = removeComment (substring cont s e) caret_pos
                     in Some (True, replace_toggled Z ed new_content s e caret_pos))
               else if s < 0 then None
               else (let (comment_start, comment_end) = enclosing_comment cont s
                     in if comment_start < s \<and> comment_end > e
                        then (let (new_content, caret_pos) =
                                    removeComment (substring cont comment_start comment_end)
                                      caret_pos
                              in Some (True, replace_toggled Z ed new_content
                                               comment_start comment_end caret_pos))
                        else (let new_content =
                                    ''<!-- '' @ strip_markers (substring cont s e) @ '' -->''
                              in Some (True, replace_toggled Z ed new_content s e
                                               (caret_pos + 5)))))
         else Some (False, ed))"

text \<open>\<open>toggleComment(editor)\<close>: the value returned is \<open>undefined\<close> (\<open>None\<close>) when no
  \<open>case\<close> matches the syntax.\<close>

definition toggleComment ::
    "zen_coding \<Rightarrow> matcher \<Rightarrow> editor \<Rightarrow> (bool option \<times> editor) option" where
  "toggleComment Z M ed =
     (if getSyntax ed = ''html'' \<or> getSyntax ed = ''xml'' \<or> getSyntax ed = ''xhtml''
      then map_option (\<lambda>(b, ed'). (Some b, ed')) (toggleHTMLComment Z M ed)
      else Some (None, ed))"

section \<open>Registered actions\<close>

text \<open>The functions of the file that are registered or could be.\<close>

datatype action_function =
    Fn_expandAbbreviation
  | Fn_expandAbbreviationWithTab
  | Fn_matchPair
  | Fn_wrapWithAbbreviation
  | Fn_prevEditPoint
  | Fn_nextEditPoint
  | Fn_insertFormattedNewline
  | Fn_selectLine
  | Fn_goToMatchingPair
  | Fn_mergeLines
  | Fn_toggleComment

text \<open>The calls \<open>zen_coding.registerAction(name, fn)\<close> at the end of the file, in
  order. \<open>registered\<close> is the function a name stands for: the last one registered under
  it.\<close>

definition registrations :: "(string \<times> action_function) list" where
  "registrations =
     [(''expandAbbreviation'', Fn_expandAbbreviation),
      (''expandAbbreviationWithTab'', Fn_expandAbbreviationWithTab),
      (''matchPair'', Fn_matchPair),
      (''wrapWithAbbreviation'', Fn_wrapWithAbbreviation),
      (''prevEditPoint'', Fn_prevEditPoint),
      (''nextEditPoint'', Fn_nextEditPoint),
      (''insertFormattedNewline'', Fn_insertFormattedNewline),
      (''selectLine'', Fn_selectLine),
      (''goToMatchingPair'', Fn_goToMatchingPair),
      (''mergeLines'', Fn_toggleComment)]"

definition registered :: "string \<Rightarrow> action_function option" where
  "registered name = map_of (rev registrations) name"

section \<open>Sample data and auxiliary definitions\<close>

text \<open>A matcher that finds no tag anywhere.\<close>

definition null_matcher :: matcher where
  "null_matcher = \<lparr>HTMLPairMatcher = (\<lambda>cont pos lm. (None, lm)),
                    find = (\<lambda>cont pos lm. ((-1, -1), lm)),
                    getTags = (\<lambda>cont pos. None)\<rparr>"

text \<open>Repeated forward calls on one document: the offsets that up to \<open>n\<close> calls
  \<open>findNewEditPoint(editor, 1)\<close> return, each call starting at the offset the call before
  it returned, up to the first call that returns \<open>-1\<close>.\<close>

fun forward_points :: "nat \<Rightarrow> editor \<Rightarrow> int list" where
  "forward_points 0 ed = []"
| "forward_points (Suc n) ed =
     (let p = findNewEditPoint ed (Some 1) None
      in if p = -1 then [] else p # forward_points n (setCaretPos p ed))"

text \<open>The cache when nothing has matched yet.\<close>

definition no_match :: last_match where
  "no_match = \<lparr>opening_tag = None, closing_tag = None\<rparr>"

text \<open>A matcher for the document \<open><br/>\<close>: at every offset of it the unary tag that
  spans it, which it caches.\<close>

definition br_tag :: tag where
  "br_tag = \<lparr>tag_start = 0, tag_end = 5, tag_type = ''tag''\<rparr>"

definition br_match :: last_match where
  "br_match = \<lparr>opening_tag = Some br_tag, closing_tag = None\<rparr>"

definition br_matcher :: matcher where
  "br_matcher =
     \<lparr>HTMLPairMatcher = (\<lambda>cont pos lm.
          if cont = ''<br/>'' \<and> 0 \<le> pos \<and> pos \<le> 5 then (Some (0, 5), br_match)
          else (Some (-1, -1), lm)),
      find = (\<lambda>cont pos lm.
          if cont = ''<br/>'' \<and> 0 \<le> pos \<and> pos \<le> 5 then ((0, 5), lm) else ((-1, -1), lm)),
      getTags = (\<lambda>cont pos.
          if cont = ''<br/>'' \<and> 0 \<le> pos \<and> pos \<le> 5 then Some (Some br_tag, None)
          else None)\<rparr>"

text \<open>Whether a string holds two white-space characters in a row.\<close>

fun has_run :: "string \<Rightarrow> bool" where
  "has_run [] = False"
| "has_run [c] = False"
| "has_run (c # d # cs) = ((isSpace c \<and> isSpace d) \<or> has_run (d # cs))"



text \<open>A string without the white space at its two ends.\<close>

definition trim :: "string \<Rightarrow> string" where
  "trim str = rev (dropWhile isSpace (rev (dropWhile isSpace str)))"

text \<open>A document with an empty attribute, adjacent tags and a blank line.\<close>

definition sample_document :: string where
  "sample_document =
     ''<a b='' @ [CHR 0x22, CHR 0x22] @ ''><c></c>'' @ [CHR 0x0A] @ ''  '' @ [CHR 0x0A] @ ''</a>''"

definition editor_at :: "string \<Rightarrow> int \<Rightarrow> int \<Rightarrow> int \<Rightarrow> string \<Rightarrow> editor" where
  "editor_at cont s e c sx =
     \<lparr>content = cont, sel_start = s, sel_end = e, caret = c, syn = sx, calls = []\<rparr>"

section \<open>Verification\<close>

declare edit_point_loop.simps [simp del]
declare getLine_start.simps [simp del]
declare comment_end_loop.simps [simp del]
declare strip_markers.simps [simp del]

subsection \<open>Edit points\<close>

lemma charAt_SomeD: "charAt s i = Some c \<Longrightarrow> 0 \<le> i \<and> i < int (length s)"
  by (simp add: charAt_def split: if_splits)

lemma edit_point_at_cases:
  "edit_point_at cont p = -1 \<or> edit_point_at cont p = p \<or> edit_point_at cont p = p + 1"
  by (simp add: edit_point_at_def Let_def)

lemma edit_point_at_None: "charAt cont p = None \<Longrightarrow> edit_point_at cont p = -1"
  by (simp add: edit_point_at_def Let_def)

lemma edit_point_at_range:
  assumes "edit_point_at cont p \<noteq> -1"
  shows "0 \<le> p \<and> p < int (length cont)
         \<and> (edit_point_at cont p = p \<or> edit_point_at cont p = p + 1)"
proof -
  from assms edit_point_at_None obtain c where "charAt cont p = Some c"
    by (cases "charAt cont p") auto
  from charAt_SomeD[OF this] assms edit_point_at_cases[of cont p] show ?thesis by simp
qed

lemma edit_point_loop_stop:
  "inc = 0 \<or> \<not> (cur < int (length cont) \<and> cur > 0) \<Longrightarrow> edit_point_loop cont inc cur = -1"
  by (subst edit_point_loop.simps) auto

lemma edit_point_loop_step:
  "inc \<noteq> 0 \<Longrightarrow> cur < int (length cont) \<Longrightarrow> cur > 0 \<Longrightarrow>
   edit_point_loop cont inc cur =
     (if edit_point_at cont (cur + inc) \<noteq> -1 then edit_point_at cont (cur + inc)
      else edit_point_loop cont inc (cur + inc))"
  by (subst edit_point_loop.simps) (simp add: Let_def)

text \<open>Whatever the direction, an offset the loop returns lies in the document.\<close>

lemma edit_point_loop_range:
  "edit_point_loop cont inc cur \<noteq> -1 \<Longrightarrow>
     0 \<le> edit_point_loop cont inc cur \<and> edit_point_loop cont inc cur \<le> int (length cont)"
proof (induction cont inc cur rule: edit_point_loop.induct)
  case (1 cont inc cur_point)
  show ?case
  proof (cases "inc \<noteq> 0 \<and> cur_point < int (length cont) \<and> cur_point > 0")
    case False
    then have "edit_point_loop cont inc cur_point = -1"
      by (intro edit_point_loop_stop) auto
    with "1.prems" show ?thesis by simp
  next
    case True
    note step = edit_point_loop_step[of inc cur_point cont]
    show ?thesis
    proof (cases "edit_point_at cont (cur_point + inc) = -1")
      case no_point: True
      with True step
      have eq: "edit_point_loop cont inc cur_point = edit_point_loop cont inc (cur_point + inc)"
        by simp
      from True no_point have "edit_point_loop cont inc (cur_point + inc) \<noteq> - 1 \<Longrightarrow>
        0 \<le> edit_point_loop cont inc (cur_point + inc) \<and>
        edit_point_loop cont inc (cur_point + inc) \<le> int (length cont)"
        using "1.IH"[OF _ _ refl refl] by simp
      with eq "1.prems" show ?thesis by simp
    next
      case False
      with True step
      have "edit_point_loop cont inc cur_point = edit_point_at cont (cur_point + inc)"
        by simp
      with edit_point_at_range[OF False] show ?thesis by auto
    qed
  qed
qed

text \<open>Searching to the right, an offset the loop returns is beyond the one it started
  from.\<close>

lemma edit_point_loop_forward:
  "inc = 1 \<Longrightarrow> edit_point_loop cont inc cur \<noteq> -1 \<Longrightarrow> cur < edit_point_loop cont inc cur"
proof (induction cont inc cur rule: edit_point_loop.induct)
  case (1 cont inc cur_point)
  show ?case
  proof (cases "cur_point < int (length cont) \<and> cur_point > 0")
    case False
    then have "edit_point_loop cont inc cur_point = -1"
      by (intro edit_point_loop_stop) auto
    with "1.prems" show ?thesis by simp
  next
    case True
    from "1.prems"(1) have nz: "inc \<noteq> 0" by simp
    note step = edit_point_loop_step[of inc cur_point cont]
    show ?thesis
    proof (cases "edit_point_at cont (cur_point + inc) = -1")
      case no_point: True
      with True nz step
      have eq: "edit_point_loop cont inc cur_point = edit_point_loop cont inc (cur_point + inc)"
        by simp
      from True no_point nz "1.prems"(1)
      have "edit_point_loop cont inc (cur_point + inc) \<noteq> - 1 \<Longrightarrow>
        cur_point + inc < edit_point_loop cont inc (cur_point + inc)"
        using "1.IH"[OF _ _ refl refl] by simp
      with eq "1.prems" show ?thesis by simp
    next
      case False
      with True nz step
      have "edit_point_loop cont inc cur_point = edit_point_at cont (cur_point + inc)"
        by simp
      with edit_point_at_range[OF False] "1.prems"(1) show ?thesis by auto
    qed
  qed
qed

lemma findNewEditPoint_range:
  "findNewEditPoint ed inc offset = -1 \<or>
   (0 \<le> findNewEditPoint ed inc offset
    \<and> findNewEditPoint ed inc offset \<le> int (length (getContent ed)))"
  using edit_point_loop_range by (auto simp: findNewEditPoint_def Let_def)

lemma findNewEditPoint_forward:
  "findNewEditPoint ed (Some 1) None \<noteq> -1 \<Longrightarrow>
     getCaretPos ed < findNewEditPoint ed (Some 1) None"
  using edit_point_loop_forward[OF refl] by (simp add: findNewEditPoint_def Let_def)

lemma setCaretPos_reads [simp]:
  "getCaretPos (setCaretPos p ed) = p" "getContent (setCaretPos p ed) = getContent ed"
  by (simp_all add: getCaretPos_def getContent_def setCaretPos_def)

lemma forward_points_sorted:
  "sorted_wrt (<) (getCaretPos ed # forward_points n ed)"
proof (induction n arbitrary: ed)
  case 0
  show ?case by simp
next
  case (Suc n)
  let ?p = "findNewEditPoint ed (Some 1) None"
  show ?case
  proof (cases "?p = -1")
    case True
    then show ?thesis by simp
  next
    case False
    from findNewEditPoint_forward[OF False] have lt: "getCaretPos ed < ?p" .
    from Suc.IH[of "setCaretPos ?p ed"]
    have srt: "sorted_wrt (<) (?p # forward_points n (setCaretPos ?p ed))" by simp
    then have "\<forall>q \<in> set (forward_points n (setCaretPos ?p ed)). ?p < q" by simp
    with lt have "\<forall>q \<in> set (forward_points n (setCaretPos ?p ed)). getCaretPos ed < q"
      by auto
    with lt srt False show ?thesis by (simp add: Let_def)
  qed
qed

lemma forward_points_length:
  "int (length (forward_points n ed))
     \<le> max 0 (int (length (getContent ed)) - max 0 (getCaretPos ed))"
proof (induction n arbitrary: ed)
  case 0
  show ?case by simp
next
  case (Suc n)
  let ?p = "findNewEditPoint ed (Some 1) None"
  show ?case
  proof (cases "?p = -1")
    case True
    then show ?thesis by simp
  next
    case False
    from findNewEditPoint_forward[OF False] have lt: "getCaretPos ed < ?p" .
    from findNewEditPoint_range[of ed "Some 1" None] False
    have rg: "0 \<le> ?p" "?p \<le> int (length (getContent ed))" by auto
    from Suc.IH[of "setCaretPos ?p ed"]
    have "int (length (forward_points n (setCaretPos ?p ed)))
            \<le> max 0 (int (length (getContent ed)) - max 0 ?p)"
      by simp
    moreover have "findNewEditPoint ed (Some 1) None \<noteq> -1 \<Longrightarrow> 0 < getCaretPos ed"
      by (rule ccontr) (simp add: findNewEditPoint_def edit_point_loop_stop)
    ultimately show ?thesis using lt rg False by (simp add: Let_def)
  qed
qed

text \<open>
  C5. \<open>findNewEditPoint\<close> returns \<open>-1\<close> (NOT_FOUND) or an offset between 0 and the
  length of the document, for every direction and initial offset. On a fixed document,
  forward calls that each start at the offset the call before returned give strictly
  increasing offsets, all beyond the first caret, and at most as many of them as the
  document has characters: then a call returns NOT_FOUND.
\<close>

theorem findNewEditPoint_monotone:
  "(findNewEditPoint ed inc offset = -1
      \<or> (0 \<le> findNewEditPoint ed inc offset
          \<and> findNewEditPoint ed inc offset \<le> int (length (getContent ed))))
   \<and> sorted_wrt (<) (getCaretPos ed # forward_points n ed)
   \<and> length (forward_points n ed) \<le> length (getContent ed)"
proof (intro conjI)
  from forward_points_length[of n ed]
  show "length (forward_points n ed) \<le> length (getContent ed)" by simp
qed (rule findNewEditPoint_range, rule forward_points_sorted)

theorem findNewEditPoint_monotone_witness:
  "forward_points 20 (editor_at sample_document 1 1 1 ''html'') = [6, 8, 11, 18]
   \<and> findNewEditPoint (editor_at sample_document 1 1 1 ''html'') (Some 1) None = 6
   \<and> findNewEditPoint (editor_at sample_document 18 18 18 ''html'') (Some 1) None = -1
   \<and> length sample_document = 23
   \<and> sorted_wrt (<)
        (getCaretPos (editor_at sample_document 1 1 1 ''html'')
           # forward_points 20 (editor_at sample_document 1 1 1 ''html''))
   \<and> length (forward_points 20 (editor_at sample_document 1 1 1 ''html''))
        \<le> length (getContent (editor_at sample_document 1 1 1 ''html''))"
proof -
  have "forward_points 20 (editor_at sample_document 1 1 1 ''html'') = [6, 8, 11, 18]"
    by code_simp
  moreover have "findNewEditPoint (editor_at sample_document 1 1 1 ''html'') (Some 1) None = 6"
    by code_simp
  moreover have "findNewEditPoint (editor_at sample_document 18 18 18 ''html'') (Some 1) None = -1"
    by code_simp
  moreover have "length sample_document = 23"
    by (simp add: sample_document_def)
  ultimately show ?thesis
    using findNewEditPoint_monotone
            [of "editor_at sample_document 1 1 1 ''html''" "Some 1" None 20]
    by simp
qed

text \<open>
  C9. When the caret position plus the initial offset is 0, \<open>findNewEditPoint\<close> returns
  \<open>-1\<close> in either direction, whatever the document holds: the loop is not entered.
\<close>

theorem findNewEditPoint_at_zero:
  "getCaretPos ed + (case offset of None \<Rightarrow> 0 | Some k \<Rightarrow> k) = 0 \<Longrightarrow>
     findNewEditPoint ed inc offset = -1"
  by (simp add: findNewEditPoint_def Let_def edit_point_loop_stop)

text \<open>On \<open>><\<close> with the caret at 0 both directions find nothing, although offset 1 is
  an edit point: the search to the left from caret 1 returns it.\<close>

theorem findNewEditPoint_at_zero_witness:
  "getCaretPos (editor_at ''><'' 0 0 0 ''html'') + (case None of None \<Rightarrow> 0 | Some k \<Rightarrow> k) = 0
   \<and> findNewEditPoint (editor_at ''><'' 0 0 0 ''html'') (Some 1) None = -1
   \<and> findNewEditPoint (editor_at ''><'' 0 0 0 ''html'') (Some (-1)) None = -1
   \<and> findNewEditPoint (editor_at ''><'' 1 1 1 ''html'') (Some (-1)) None = 1"
proof -
  have h: "getCaretPos (editor_at ''><'' 0 0 0 ''html'')
             + (case None of None \<Rightarrow> 0 | Some k \<Rightarrow> k) = 0"
    by (simp add: getCaretPos_def editor_at_def)
  have left: "findNewEditPoint (editor_at ''><'' 1 1 1 ''html'') (Some (-1)) None = 1"
    by code_simp
  from h left findNewEditPoint_at_zero [OF h, of "Some 1"]
    findNewEditPoint_at_zero [OF h, of "Some (-1)"]
  show ?thesis by simp
qed

subsection \<open>Registered actions\<close>

text \<open>
  C8. The name \<open>mergeLines\<close> is registered for the function \<open>toggleComment\<close>, and no
  registered name stands for the function \<open>mergeLines\<close>.
\<close>

theorem mergeLines_name_registered:
  "registered ''mergeLines'' = Some Fn_toggleComment
   \<and> (\<forall>name. registered name \<noteq> Some Fn_mergeLines)"
proof
  show "registered ''mergeLines'' = Some Fn_toggleComment"
    by (simp add: registered_def registrations_def)
next
  show "\<forall>name. registered name \<noteq> Some Fn_mergeLines"
  proof (intro allI notI)
    fix name assume "registered name = Some Fn_mergeLines"
    then have "(name, Fn_mergeLines) \<in> set (rev registrations)"
      unfolding registered_def by (rule map_of_SomeD)
    then show False by (simp add: registrations_def)
  qed
qed

subsection \<open>Toggling comments\<close>

text \<open>
  C10. When the syntax of the editor is none of \<open>html\<close>, \<open>xml\<close> and \<open>xhtml\<close>,
  \<open>toggleComment\<close> returns (the value \<open>undefined\<close>) and leaves the editor as it was: no
  call of \<open>replaceContent\<close>, \<open>createSelection\<close> or \<open>setCaretPos\<close> is logged.
\<close>

theorem toggleComment_other_syntax:
  "getSyntax ed \<notin> {''html'', ''xml'', ''xhtml''} \<Longrightarrow> toggleComment Z M ed = Some (None, ed)"
  by (simp add: toggleComment_def)

theorem toggleComment_other_syntax_witness:
  "getSyntax (editor_at ''a { }'' 0 5 5 ''css'') \<notin> {''html'', ''xml'', ''xhtml''}
   \<and> toggleComment zen_coding_spec null_matcher (editor_at ''a { }'' 0 5 5 ''css'')
     = Some (None, editor_at ''a { }'' 0 5 5 ''css'')
   \<and> calls (editor_at ''a { }'' 0 5 5 ''css'') = []"
proof -
  have h: "getSyntax (editor_at ''a { }'' 0 5 5 ''css'') \<notin> {''html'', ''xml'', ''xhtml''}"
    by (simp add: getSyntax_def editor_at_def)
  from h toggleComment_other_syntax [OF h, of zen_coding_spec null_matcher]
  show ?thesis by (simp add: editor_at_def)
qed

text \<open>
  C7. On the document \<open><!-- hello -->\<close> with the whole string selected, in one of the
  syntaxes \<open>toggleComment\<close> handles and with a line splitter that leaves \<open>hello\<close> one
  line, \<open>toggleComment\<close> replaces the range 0 to 14 by \<open>hello\<close>, which is the whole
  content then, and sets the caret 5 below where it was.
\<close>

theorem toggleComment_hello:
  assumes "getSyntax ed \<in> {''html'', ''xml'', ''xhtml''}"
    and "getContent ed = ''<!-- hello -->''"
    and "getSelectionRange ed = (0, 14)"
    and "splitByLines Z ''hello'' = [''hello'']"
  shows "toggleComment Z M ed =
           Some (Some True,
                 ed\<lparr>content := ''hello'',
                    caret := getCaretPos ed - 5,
                    sel_start := getCaretPos ed - 5,
                    sel_end := getCaretPos ed - 5,
                    calls := calls ed @ [SetCaretPos 0, ReplaceContent ''hello'' 0 14,
                                         SetCaretPos (getCaretPos ed - 5)]\<rparr>)"
proof -
  from assms(2,3) have rng: "toggle_range M ed = (0, 14)"
    by (simp add: toggle_range_def)
  have hm: "hasMatch ''<!-- hello -->'' ''<!--'' 0"
    by (simp add: hasMatch_def substr_def)
  have sub: "substring ''<!-- hello -->'' 0 14 = ''<!-- hello -->''"
    by (simp add: substring_def clamp_index_def)
  have rc: "removeComment ''<!-- hello -->'' c = (''hello'', c - 5)" for c
    by (simp add: removeComment_def comment_open_match_def isSpace_def)
  from assms(2) have line: "getCurrentLine (setCaretPos 0 ed) = ''<!-- hello -->''"
    by (simp add: getCurrentLine_def setCaretPos_def getContent_def substring_def
          clamp_index_def isNewline_def)
  from assms(4) line have un: "unindent Z (setCaretPos 0 ed) ''hello'' = ''hello''"
    by (simp add: unindent_def getCurrentLinePadding_def isSpace_def)
  from assms(2) have rt: "replace_toggled Z ed ''hello'' 0 14 c =
      ed\<lparr>content := ''hello'', caret := c, sel_start := c, sel_end := c,
         calls := calls ed @ [SetCaretPos 0, ReplaceContent ''hello'' 0 14, SetCaretPos c]\<rparr>"
    for c
    unfolding replace_toggled_def Let_def un
    by (simp add: setCaretPos_def replaceContent_def getContent_def substring_def
          clamp_index_def)
  from assms(1)
  have syn: "getSyntax ed = ''html'' \<or> getSyntax ed = ''xml'' \<or> getSyntax ed = ''xhtml''"
    by simp
  have "toggleHTMLComment Z M ed =
          Some (True, replace_toggled Z ed ''hello'' 0 14 (getCaretPos ed - 5))"
    using assms(2) by (simp add: toggleHTMLComment_def rng hm sub rc)
  with syn rt show ?thesis by (simp add: toggleComment_def)
qed

theorem toggleComment_hello_witness:
  "getSyntax (editor_at ''<!-- hello -->'' 0 14 14 ''html'') \<in> {''html'', ''xml'', ''xhtml''}
   \<and> getContent (editor_at ''<!-- hello -->'' 0 14 14 ''html'') = ''<!-- hello -->''
   \<and> getSelectionRange (editor_at ''<!-- hello -->'' 0 14 14 ''html'') = (0, 14)
   \<and> splitByLines zen_coding_spec ''hello'' = [''hello'']
   \<and> toggleComment zen_coding_spec null_matcher (editor_at ''<!-- hello -->'' 0 14 14 ''html'')
     = Some (Some True,
             \<lparr>content = ''hello'', sel_start = 9, sel_end = 9, caret = 9, syn = ''html'',
                calls = [SetCaretPos 0, ReplaceContent ''hello'' 0 14, SetCaretPos 9]\<rparr>)"
proof -
  let ?ed = "editor_at ''<!-- hello -->'' 0 14 14 ''html''"
  have h1: "getSyntax ?ed \<in> {''html'', ''xml'', ''xhtml''}"
    by (simp add: getSyntax_def editor_at_def)
  have h2: "getContent ?ed = ''<!-- hello -->''"
    by (simp add: getContent_def editor_at_def)
  have h3: "getSelectionRange ?ed = (0, 14)"
    by (simp add: getSelectionRange_def editor_at_def)
  have h4: "splitByLines zen_coding_spec ''hello'' = [''hello'']"
    by (simp add: zen_coding_spec_def isNewline_def)
  from h1 h2 h3 h4 toggleComment_hello [OF h1 h2 h3 h4, of null_matcher]
  show ?thesis by (simp add: editor_at_def getCaretPos_def)
qed

text \<open>The insertion case: what is put in the place of the range, and the caret.\<close>

lemma toggleComment_insertion:
  assumes "getSyntax ed \<in> {''html'', ''xml'', ''xhtml''}"
    and "toggle_range M ed = (s, e)" and "s \<noteq> e" and "0 \<le> s"
    and "\<not> hasMatch (getContent ed) ''<!--'' s"
    and "\<not> (fst (enclosing_comment (getContent ed) s) < s
            \<and> snd (enclosing_comment (getContent ed) s) > e)"
  shows "toggleComment Z M ed =
           Some (Some True,
                 replace_toggled Z ed
                   (''<!-- '' @ strip_markers (substring (getContent ed) s e) @ '' -->'')
                   s e (getCaretPos ed + 5))"
proof -
  from assms(2-6)
  have "toggleHTMLComment Z M ed =
          Some (True, replace_toggled Z ed
                   (''<!-- '' @ strip_markers (substring (getContent ed) s e) @ '' -->'')
                   s e (getCaretPos ed + 5))"
    by (auto simp add: toggleHTMLComment_def Let_def split_def)
  with assms(1) show ?thesis by (auto simp: toggleComment_def)
qed

lemma getCaretPos_replace_toggled: "getCaretPos (replace_toggled Z ed new s e c) = c"
  by (simp add: replace_toggled_def Let_def)

text \<open>
  C3, at the selection \<open>a<!--b-->c\<close>, which spans the document and is in no comment:
  the insertion keeps both comment markers of the selection, since neither has white
  space next to it; the content becomes \<open><!-- a<!--b-->c -->\<close>. The caret moves from 10
  to 15.
\<close>

theorem toggleComment_keeps_bare_markers:
  "toggleComment zen_coding_spec null_matcher (editor_at ''a<!--b-->c'' 0 10 10 ''html'')
     = Some (Some True,
             \<lparr>content = ''<!-- a<!--b-->c -->'', sel_start = 15, sel_end = 15, caret = 15,
                syn = ''html'',
                calls = [SetCaretPos 0, ReplaceContent ''<!-- a<!--b-->c -->'' 0 10,
                         SetCaretPos 15]\<rparr>)"
  by code_simp

subsection \<open>Removing the markers\<close>

text \<open>Substrings at offsets inside the string.\<close>

lemma clamp_index_nat: "n \<le> length s \<Longrightarrow> clamp_index s (int n) = n"
  by (simp add: clamp_index_def)

lemma substring_nat:
  "x \<le> y \<Longrightarrow> y \<le> length s \<Longrightarrow> substring s (int x) (int y) = take (y - x) (drop x s)"
  by (simp add: substring_def clamp_index_nat Let_def)

lemma substring_prefix: "substring (a @ b) 0 (int (length a)) = a"
  using substring_nat[of 0 "length a" "a @ b"] by simp

lemma substring_mid:
  "substring (a @ b @ c) (int (length a)) (int (length a) + int (length b)) = b"
  using substring_nat[of "length a" "length a + length b" "a @ b @ c"] by simp

lemma substring_suffix:
  "substring (a @ b @ c) (int (length a) + int (length b))
     (int (length a) + int (length b) + int (length c)) = c"
  using substring_nat[of "length a + length b" "length a + length b + length c" "a @ b @ c"]
  by simp


text \<open>What the two replacements of \<open>removeComment\<close> leave of a comment.\<close>

lemma all_space_dropWhile:
  "(dropWhile isSpace (xs @ ''-->'') = ''-->'') = (\<forall>c \<in> set xs. isSpace c)"
proof (induction xs)
  case Nil
  show ?case by (simp add: isSpace_def)
next
  case (Cons x xs)
  show ?case
  proof (cases "isSpace x")
    case True
    with Cons show ?thesis by simp
  next
    case False
    then show ?thesis by auto
  qed
qed

lemma rtrim_Cons:
  "\<not> (\<forall>c \<in> set (x # xs). isSpace c) \<Longrightarrow>
     rev (dropWhile isSpace (rev (x # xs))) = x # rev (dropWhile isSpace (rev xs))"
proof (cases "\<forall>c \<in> set xs. isSpace c")
  case True
  assume "\<not> (\<forall>c \<in> set (x # xs). isSpace c)"
  with True have nx: "\<not> isSpace x" by simp
  from True have "dropWhile isSpace (rev xs) = []" by simp
  moreover from True nx have "dropWhile isSpace (rev xs @ [x]) = [x]"
    using dropWhile_append2[of "rev xs" isSpace "[x]"] by simp
  ultimately show ?thesis by simp
next
  case False
  then have "\<exists>c \<in> set (rev xs). \<not> isSpace c" by simp
  then have "dropWhile isSpace (rev xs @ [x]) = dropWhile isSpace (rev xs) @ [x]"
    by (auto simp: dropWhile_append1)
  then show ?thesis by simp
qed


lemma strip_comment_close_marked:
  "strip_comment_close (xs @ ''-->'') = rev (dropWhile isSpace (rev xs))"
proof (induction xs)
  case Nil
  show ?case by (simp add: isSpace_def)
next
  case (Cons x xs)
  show ?case
  proof (cases "\<forall>c \<in> set (x # xs). isSpace c")
    case True
    then have "dropWhile isSpace ((x # xs) @ ''-->'') = ''-->''"
      by (simp only: all_space_dropWhile)
    moreover from True have "dropWhile isSpace (rev (x # xs)) = []" by simp
    ultimately show ?thesis by simp
  next
    case False
    then have "dropWhile isSpace ((x # xs) @ ''-->'') \<noteq> ''-->''"
      by (simp only: all_space_dropWhile) simp
    then have "strip_comment_close ((x # xs) @ ''-->'') = x # strip_comment_close (xs @ ''-->'')"
      by simp
    with Cons rtrim_Cons[OF False] show ?thesis by simp
  qed
qed

lemma strip_close_trim:
  "strip_comment_close (dropWhile isSpace (ys @ ''-->'')) = trim ys"
proof (cases "\<forall>c \<in> set ys. isSpace c")
  case True
  then have "dropWhile isSpace (ys @ ''-->'') = ''-->''"
    by (simp only: all_space_dropWhile)
  moreover from True have "trim ys = []"
    by (auto simp: trim_def dest: set_dropWhileD)
  ultimately show ?thesis by (simp add: isSpace_def)
next
  case False
  then have "dropWhile isSpace (ys @ ''-->'') = dropWhile isSpace ys @ ''-->''"
    by (auto simp: dropWhile_append1)
  then show ?thesis by (simp add: strip_comment_close_marked trim_def)
qed

lemma takeWhile_marked: "takeWhile isSpace (ys @ ''-->'') = takeWhile isSpace ys"
proof (cases "\<forall>c \<in> set ys. isSpace c")
  case True
  then have a: "takeWhile isSpace ys = ys" by simp
  have b: "\<not> isSpace CHR ''-''" by (simp add: isSpace_def)
  from True have "takeWhile isSpace (ys @ ''-->'') = ys @ takeWhile isSpace ''-->''"
    by (simp add: takeWhile_append2)
  also from b have "takeWhile isSpace ''-->'' = []" by simp
  finally have "takeWhile isSpace (ys @ ''-->'') = ys" by simp
  with a show ?thesis by (simp only:)
next
  case False
  then show ?thesis by (auto simp: takeWhile_append1)
qed

lemma removeComment_opened:
  assumes "take 4 str = ''<!--''"
  shows "removeComment str c =
           (strip_comment_close (dropWhile isSpace (drop 4 str)),
            c - 4 - int (length (takeWhile isSpace (drop 4 str))))"
proof -
  from assms have n: "comment_open_match str = 4 + length (takeWhile isSpace (drop 4 str))"
    by (simp add: comment_open_match_def)
  have "drop (4 + length (takeWhile isSpace (drop 4 str))) str
          = dropWhile isSpace (drop 4 str)"
    by (simp add: dropWhile_eq_drop add.commute)
  with n show ?thesis by (simp add: removeComment_def Let_def)
qed

lemma removeComment_marked:
  "removeComment (''<!--'' @ ys @ ''-->'') c
     = (trim ys, c - 4 - int (length (takeWhile isSpace ys)))"
proof -
  have "take 4 (''<!--'' @ ys @ ''-->'') = ''<!--''" by simp
  from removeComment_opened[OF this, of c] show ?thesis
    by (simp add: strip_close_trim takeWhile_marked)
qed

text \<open>The three calls of the last block, written out.\<close>

lemma replace_toggled_expand:
  "replace_toggled Z ed new s e c =
     ed\<lparr>content := substring (content ed) 0 s @ unindent Z (setCaretPos s ed) new
                       @ substring (content ed) e (int (length (content ed))),
        caret := c, sel_start := c, sel_end := c,
        calls := calls ed @ [SetCaretPos s,
                             ReplaceContent (unindent Z (setCaretPos s ed) new) s e,
                             SetCaretPos c]\<rparr>"
  by (simp add: replace_toggled_def Let_def setCaretPos_def replaceContent_def)

subsection \<open>A tag inside a comment\<close>

lemma hasMatch_charAt:
  assumes "0 \<le> j" and "hasMatch cont (c # cs) j"
  shows "charAt cont j = Some c"
proof -
  let ?k = "nat (min j (int (length cont)))"
  from assms have tk: "take (Suc (length cs)) (drop ?k cont) = c # cs"
    by (simp add: hasMatch_def substr_def Let_def)
  then have ne: "drop ?k cont \<noteq> []" by auto
  then have lt: "?k < length cont" by simp
  with assms(1) have jlt: "j < int (length cont)" by (simp add: min_def split: if_splits)
  with assms(1) have k: "?k = nat j" by simp
  from tk ne have "hd (drop ?k cont) = c" by (cases "drop ?k cont") auto
  with lt have "cont ! ?k = c" by (simp add: hd_drop_conv_nth)
  with assms(1) jlt k show ?thesis by (simp add: charAt_def)
qed

lemma comment_start_loop_nearest:
  assumes "cs < n"
    and "hasMatch cont ''<!--'' (int cs)"
    and "\<forall>j. cs < j \<and> j < n \<longrightarrow> \<not> hasMatch cont ''<!--'' (int j)"
  shows "comment_start_loop cont n = int cs"
  using assms
proof (induction n)
  case 0
  then show ?case by simp
next
  case (Suc n)
  show ?case
  proof (cases "cs = n")
    case True
    with Suc.prems(2) hasMatch_charAt[of "int n" cont "CHR ''<''" "''!--''"]
    show ?thesis by simp
  next
    case False
    with Suc.prems(1) have lt: "cs < n" by simp
    with Suc.prems(3) have "\<not> hasMatch cont ''<!--'' (int n)" by simp
    moreover from Suc.prems(3) have "\<forall>j. cs < j \<and> j < n \<longrightarrow> \<not> hasMatch cont ''<!--'' (int j)"
      by simp
    ultimately show ?thesis using Suc.IH[OF lt Suc.prems(2)] by simp
  qed
qed

lemma comment_end_loop_first:
  assumes "0 \<le> from" and "from < k"
    and "hasMatch cont ''-->'' k"
    and "\<forall>j. from < j \<and> j < k \<longrightarrow> \<not> hasMatch cont ''-->'' j"
  shows "comment_end_loop cont from = k + 3"
  using assms
proof (induction cont "from" rule: comment_end_loop.induct)
  case (1 cont "from")
  from "1.prems"(1,2) have k0: "0 \<le> k" by simp
  from hasMatch_charAt[OF k0 "1.prems"(3)] have ck: "charAt cont k = Some CHR ''-''" .
  then have klt: "k < int (length cont)" by (simp add: charAt_def split: if_splits)
  with "1.prems"(2) have guard: "int (length cont) \<ge> from" by simp
  show ?case
  proof (cases "from + 1 = k")
    case True
    with guard ck "1.prems"(3) show ?thesis
      by (subst comment_end_loop.simps) simp
  next
    case False
    with "1.prems"(2) have lt: "from + 1 < k" by simp
    with "1.prems"(2,4) have nm: "\<not> hasMatch cont ''-->'' (from + 1)" by simp
    from "1.prems"(4) have rest: "\<forall>j. from + 1 < j \<and> j < k \<longrightarrow> \<not> hasMatch cont ''-->'' j"
      by simp
    from "1.prems"(1) have "0 \<le> from + 1" by simp
    from "1.IH"[OF guard _ this lt "1.prems"(3) rest] nm
    have "comment_end_loop cont (from + 1) = k + 3" by simp
    with guard nm show ?thesis by (subst comment_end_loop.simps) simp
  qed
qed

lemma enclosing_comment_found:
  assumes "0 \<le> cs" and "cs < s"
    and "hasMatch cont ''<!--'' cs"
    and "\<forall>j. cs < j \<and> j < s \<longrightarrow> \<not> hasMatch cont ''<!--'' j"
    and "cs < k"
    and "hasMatch cont ''-->'' k"
    and "\<forall>j. cs < j \<and> j < k \<longrightarrow> \<not> hasMatch cont ''-->'' j"
  shows "enclosing_comment cont s = (cs, k + 3)"
proof -
  from assms(1,2) have lt: "nat cs < nat s" by simp
  from assms(1,3) have hm: "hasMatch cont ''<!--'' (int (nat cs))" by simp
  have none: "\<forall>j. nat cs < j \<and> j < nat s \<longrightarrow> \<not> hasMatch cont ''<!--'' (int j)"
  proof (intro allI impI)
    fix j :: nat assume "nat cs < j \<and> j < nat s"
    with assms(1) have "cs < int j \<and> int j < s" by auto
    with assms(4) show "\<not> hasMatch cont ''<!--'' (int j)" by blast
  qed
  from comment_start_loop_nearest[OF lt hm none] assms(1)
  have st: "comment_start_loop cont (nat s) = cs" by simp
  from comment_end_loop_first[OF assms(1) assms(5) assms(6) assms(7)]
  have en: "comment_end_loop cont cs = k + 3" .
  from st en assms(1) show ?thesis by (simp add: enclosing_comment_def Let_def)
qed

lemma toggleComment_html:
  "getSyntax ed \<in> {''html'', ''xml'', ''xhtml''} \<Longrightarrow>
     toggleHTMLComment Z M ed = Some (b, ed') \<Longrightarrow> toggleComment Z M ed = Some (Some b, ed')"
  by (auto simp: toggleComment_def)



lemma hasMatch_take:
  assumes "0 \<le> j" and "hasMatch cont w j" and "w \<noteq> []"
  shows "take (length w) (drop (nat j) cont) = w \<and> nat j + length w \<le> length cont"
proof -
  let ?k = "nat (min j (int (length cont)))"
  from assms(1,2) have tk: "take (length w) (drop ?k cont) = w"
    by (simp add: hasMatch_def substr_def Let_def)
  with assms(3) have "drop ?k cont \<noteq> []" by auto
  then have "?k < length cont" by simp
  with assms(1) have k: "?k = nat j" by (simp add: min_def split: if_splits)
  from tk have "length (take (length w) (drop ?k cont)) = length w" by simp
  then have "length w \<le> length cont - ?k" by simp
  with tk k \<open>?k < length cont\<close> show ?thesis by simp
qed

lemma comment_parts:
  assumes "0 \<le> cs" and "cs < k"
    and "hasMatch cont ''<!--'' cs" and "hasMatch cont ''-->'' k"
  shows "take 4 (substring cont cs (k + 3)) = ''<!--''"
    and "drop 4 (substring cont cs (k + 3)) = substring cont (cs + 4) (k + 3)"
    and "cs + 4 \<le> k \<Longrightarrow> substring cont (cs + 4) (k + 3) = substring cont (cs + 4) k @ ''-->''"
proof -
  let ?a = "nat cs" and ?b = "nat k"
  from assms(1,2) have k0: "0 \<le> k" by simp
  have l4: "length ''<!--'' = 4" and l3: "length ''-->'' = 3" by simp_all
  have n4: "''<!--'' \<noteq> []" and n3: "''-->'' \<noteq> []" by simp_all
  from hasMatch_take[OF assms(1,3) n4, unfolded l4]
  have op: "take 4 (drop ?a cont) = ''<!--''" and opl: "?a + 4 \<le> length cont" by blast+
  from hasMatch_take[OF k0 assms(4) n3, unfolded l3]
  have cl: "take 3 (drop ?b cont) = ''-->''" and cll: "?b + 3 \<le> length cont" by blast+
  from assms(1,2) have ab: "?a < ?b" by simp
  then have le1: "?a \<le> ?b + 3" and le2: "?a + 4 \<le> ?b + 3" by linarith+
  from assms(1) have cs: "int ?a = cs" and cs4: "int (?a + 4) = cs + 4" by simp_all
  from k0 have k3: "int (?b + 3) = k + 3" and k: "int ?b = k" by simp_all
  have whole: "substring cont cs (k + 3) = take (?b + 3 - ?a) (drop ?a cont)"
    using substring_nat[OF le1 cll] unfolding cs k3 .
  have rest: "substring cont (cs + 4) (k + 3) = take (?b + 3 - (?a + 4)) (drop (?a + 4) cont)"
    using substring_nat[OF le2 cll] unfolding cs4 k3 .
  from ab have "min 4 (?b + 3 - ?a) = 4" by linarith
  with op show "take 4 (substring cont cs (k + 3)) = ''<!--''"
    unfolding whole by (simp only: take_take)
  show "drop 4 (substring cont cs (k + 3)) = substring cont (cs + 4) (k + 3)"
    unfolding whole rest by (simp add: drop_take add.commute)
  show "substring cont (cs + 4) (k + 3) = substring cont (cs + 4) k @ ''-->''" if le: "cs + 4 \<le> k"
  proof -
    from le assms(1) have le': "?a + 4 \<le> ?b" by simp
    from cll have bl: "?b \<le> length cont" by simp
    have body: "substring cont (cs + 4) k = take (?b - (?a + 4)) (drop (?a + 4) cont)"
      using substring_nat[OF le' bl] unfolding cs4 k .
    from le' have "?b + 3 - (?a + 4) = (?b - (?a + 4)) + 3" by simp
    then have "take (?b + 3 - (?a + 4)) (drop (?a + 4) cont)
                 = take (?b - (?a + 4)) (drop (?a + 4) cont)
                   @ take 3 (drop (?b - (?a + 4)) (drop (?a + 4) cont))"
      by (simp only: take_add)
    also from le' have "drop (?b - (?a + 4)) (drop (?a + 4) cont) = drop ?b cont" by simp
    finally show ?thesis unfolding rest body cl .
  qed
qed

text \<open>
  C4. In a syntax \<open>toggleComment\<close> handles, let the range (the selection, or the tag at
  the caret) be non-empty and not start with \<open><!--\<close>. If \<open>cs\<close> is the nearest offset
  before the start of the range at which \<open><!--\<close> stands, \<open>k\<close> the first offset after
  \<open>cs\<close> at which \<open>-->\<close> stands, and the comment from \<open>cs\<close> to \<open>k + 3\<close> ends after the
  end of the range, then \<open>toggleComment\<close> removes that comment and inserts nothing: it
  sets the caret to \<open>cs\<close>, replaces the range \<open>cs\<close> to \<open>k + 3\<close> by what is left of the
  comment without \<open><!--\<close>, the white space after it and the closing \<open>-->\<close> with the
  white space before it (unindented), and sets the caret back from where it was by the
  length of \<open><!--\<close> and that white space. When the two markers do not overlap, what is
  left is the text between them without the white space at its two ends.
\<close>

theorem toggleComment_inside_comment:
  assumes "getSyntax ed \<in> {''html'', ''xml'', ''xhtml''}"
    and "toggle_range M ed = (s, e)" and "s \<noteq> e"
    and "\<not> hasMatch (getContent ed) ''<!--'' s"
    and "0 \<le> cs" and "cs < s"
    and "hasMatch (getContent ed) ''<!--'' cs"
    and "\<forall>j. cs < j \<and> j < s \<longrightarrow> \<not> hasMatch (getContent ed) ''<!--'' j"
    and "cs < k"
    and "hasMatch (getContent ed) ''-->'' k"
    and "\<forall>j. cs < j \<and> j < k \<longrightarrow> \<not> hasMatch (getContent ed) ''-->'' j"
    and "e < k + 3"
  shows "let cont = getContent ed;
             rest = substring cont (cs + 4) (k + 3);
             inner = strip_comment_close (dropWhile isSpace rest);
             new = unindent Z (setCaretPos cs ed) inner;
             cp = getCaretPos ed - 4 - int (length (takeWhile isSpace rest))
         in toggleComment Z M ed =
              Some (Some True,
                    ed\<lparr>content := substring cont 0 cs @ new
                                      @ substring cont (k + 3) (int (length cont)),
                       caret := cp, sel_start := cp, sel_end := cp,
                       calls := calls ed @ [SetCaretPos cs, ReplaceContent new cs (k + 3),
                                            SetCaretPos cp]\<rparr>)
            \<and> (cs + 4 \<le> k \<longrightarrow>
                 inner = trim (substring cont (cs + 4) k)
                 \<and> cp = getCaretPos ed - 4
                          - int (length (takeWhile isSpace (substring cont (cs + 4) k))))"
proof -
  let ?cont = "getContent ed"
  let ?rest = "substring ?cont (cs + 4) (k + 3)"
  let ?inner = "strip_comment_close (dropWhile isSpace ?rest)"
  let ?cp = "getCaretPos ed - 4 - int (length (takeWhile isSpace ?rest))"
  note parts = comment_parts[OF assms(5,9,7,10)]
  from enclosing_comment_found[OF assms(5-11)]
  have enc: "enclosing_comment ?cont s = (cs, k + 3)" .
  from removeComment_opened[OF parts(1), of "getCaretPos ed"]
  have rc: "removeComment (substring ?cont cs (k + 3)) (getCaretPos ed) = (?inner, ?cp)"
    unfolding parts(2) .
  from assms(5,6) have "\<not> s < 0" by simp
  with assms(2,3,4,6,12) enc rc
  have "toggleHTMLComment Z M ed = Some (True, replace_toggled Z ed ?inner cs (k + 3) ?cp)"
    by (simp add: toggleHTMLComment_def Let_def)
  from toggleComment_html[OF assms(1) this]
  have main: "toggleComment Z M ed =
          Some (Some True,
                ed\<lparr>content := substring ?cont 0 cs @ unindent Z (setCaretPos cs ed) ?inner
                                  @ substring ?cont (k + 3) (int (length ?cont)),
                   caret := ?cp, sel_start := ?cp, sel_end := ?cp,
                   calls := calls ed @ [SetCaretPos cs,
                              ReplaceContent (unindent Z (setCaretPos cs ed) ?inner) cs (k + 3),
                              SetCaretPos ?cp]\<rparr>)"
    unfolding replace_toggled_expand getContent_def .
  have apart: "?inner = trim (substring ?cont (cs + 4) k)
               \<and> ?cp = getCaretPos ed - 4
                          - int (length (takeWhile isSpace (substring ?cont (cs + 4) k)))"
    if "cs + 4 \<le> k"
    unfolding parts(3)[OF that] by (simp add: strip_close_trim takeWhile_marked)
  from main apart show ?thesis unfolding Let_def by blast
qed

theorem toggleComment_inside_comment_witness:
  "getSyntax (editor_at ''<!-- <b> -->'' 5 8 6 ''html'') \<in> {''html'', ''xml'', ''xhtml''}
   \<and> toggle_range null_matcher (editor_at ''<!-- <b> -->'' 5 8 6 ''html'') = (5, 8)
   \<and> hasMatch (getContent (editor_at ''<!-- <b> -->'' 5 8 6 ''html'')) ''<!--'' 0
   \<and> hasMatch (getContent (editor_at ''<!-- <b> -->'' 5 8 6 ''html'')) ''-->'' 9
   \<and> toggleComment zen_coding_spec null_matcher (editor_at ''<!-- <b> -->'' 5 8 6 ''html'')
     = Some (Some True,
             \<lparr>content = ''<b>'', sel_start = 1, sel_end = 1, caret = 1, syn = ''html'',
                calls = [SetCaretPos 0, ReplaceContent ''<b>'' 0 12, SetCaretPos 1]\<rparr>)
   \<and> trim (substring (getContent (editor_at ''<!-- <b> -->'' 5 8 6 ''html'')) (0 + 4) 9)
     = ''<b>''"
proof -
  let ?ed = "editor_at ''<!-- <b> -->'' 5 8 6 ''html''"
  have c: "getContent ?ed = ''<!-- <b> -->''" by (simp add: getContent_def editor_at_def)
  have h1: "getSyntax ?ed \<in> {''html'', ''xml'', ''xhtml''}"
    by (simp add: getSyntax_def editor_at_def)
  have h2: "toggle_range null_matcher ?ed = (5, 8)"
    by (simp add: toggle_range_def getSelectionRange_def editor_at_def)
  have h3: "(5::int) \<noteq> 8" by simp
  have h4: "\<not> hasMatch (getContent ?ed) ''<!--'' 5"
    unfolding c by (simp add: hasMatch_def substr_def)
  have h5: "(0::int) \<le> 0" and h6: "(0::int) < 5" by simp_all
  have h7: "hasMatch (getContent ?ed) ''<!--'' 0"
    unfolding c by (simp add: hasMatch_def substr_def)
  have h8: "\<forall>j. 0 < j \<and> j < 5 \<longrightarrow> \<not> hasMatch (getContent ?ed) ''<!--'' j"
  proof (intro allI impI)
    fix j :: int assume "0 < j \<and> j < 5"
    then have "j = 1 \<or> j = 2 \<or> j = 3 \<or> j = 4" by arith
    then show "\<not> hasMatch (getContent ?ed) ''<!--'' j"
      unfolding c by (elim disjE) (simp_all add: hasMatch_def substr_def)
  qed
  have h9: "(0::int) < 9" by simp
  have h10: "hasMatch (getContent ?ed) ''-->'' 9"
    unfolding c by (simp add: hasMatch_def substr_def)
  have h11: "\<forall>j. 0 < j \<and> j < 9 \<longrightarrow> \<not> hasMatch (getContent ?ed) ''-->'' j"
  proof (intro allI impI)
    fix j :: int assume "0 < j \<and> j < 9"
    then have "j = 1 \<or> j = 2 \<or> j = 3 \<or> j = 4 \<or> j = 5 \<or> j = 6 \<or> j = 7 \<or> j = 8" by arith
    then show "\<not> hasMatch (getContent ?ed) ''-->'' j"
      unfolding c by (elim disjE) (simp_all add: hasMatch_def substr_def)
  qed
  have h12: "(8::int) < 9 + 3" by simp
  have tr: "trim (substring (getContent ?ed) (0 + 4) 9) = ''<b>''" by code_simp
  have rhs: "(let cont = getContent ?ed;
             rest = substring cont (0 + 4) (9 + 3);
             inner = strip_comment_close (dropWhile isSpace rest);
             new = unindent zen_coding_spec (setCaretPos 0 ?ed) inner;
             cp = getCaretPos ?ed - 4 - int (length (takeWhile isSpace rest))
         in ?ed\<lparr>content := substring cont 0 0 @ new
                                      @ substring cont (9 + 3) (int (length cont)),
                       caret := cp, sel_start := cp, sel_end := cp,
                       calls := calls ?ed @ [SetCaretPos 0, ReplaceContent new 0 (9 + 3),
                                            SetCaretPos cp]\<rparr>)
        = \<lparr>content = ''<b>'', sel_start = 1, sel_end = 1, caret = 1, syn = ''html'',
                calls = [SetCaretPos 0, ReplaceContent ''<b>'' 0 12, SetCaretPos 1]\<rparr>"
    by code_simp
  from toggleComment_inside_comment
         [OF h1 h2 h3 h4 h5 h6 h7 h8 h9 h10 h11 h12, of zen_coding_spec]
  have "toggleComment zen_coding_spec null_matcher ?ed
          = Some (Some True,
             \<lparr>content = ''<b>'', sel_start = 1, sel_end = 1, caret = 1, syn = ''html'',
                calls = [SetCaretPos 0, ReplaceContent ''<b>'' 0 12, SetCaretPos 1]\<rparr>)"
    using rhs unfolding Let_def by simp
  with h1 h2 h7 h10 tr show ?thesis by (intro conjI)
qed

subsection \<open>Toggling twice\<close>

lemma trim_hd: "trim xs = [] \<or> \<not> isSpace (hd (trim xs))"
proof (cases "dropWhile isSpace xs")
  case Nil
  have "trim xs = []" unfolding trim_def Nil by simp
  then show ?thesis by simp
next
  case (Cons y ys)
  then have ny: "\<not> isSpace y" using hd_dropWhile[of isSpace xs] by auto
  then have "\<not> (\<forall>c \<in> set (y # ys). isSpace c)" by simp
  from rtrim_Cons[OF this] have "trim xs = y # rev (dropWhile isSpace (rev ys))"
    unfolding trim_def Cons .
  with ny show ?thesis by simp
qed

lemma set_trim: "set (trim xs) \<subseteq> set xs"
proof -
  have "set (trim xs) \<subseteq> set (dropWhile isSpace xs)"
    unfolding trim_def using set_dropWhileD[of _ isSpace "rev (dropWhile isSpace xs)"] by auto
  also have "\<dots> \<subseteq> set xs"
    using set_dropWhileD[of _ isSpace xs] by auto
  finally show ?thesis .
qed

lemma content_setCaretPos: "content (setCaretPos p ed) = content ed"
  by (simp add: setCaretPos_def)

lemma content_replaceContent:
  "content (replaceContent t s e ed) =
     substring (content ed) 0 s @ t @ substring (content ed) e (int (length (content ed)))"
  by (simp add: replaceContent_def)

lemma getContent_replace_toggled:
  assumes "getContent ed = pre @ mid @ post"
  shows "getContent (replace_toggled Z ed new (int (length pre))
                       (int (length pre) + int (length mid)) c)
           = pre @ unindent Z (setCaretPos (int (length pre)) ed) new @ post"
proof -
  from assms have c: "content ed = pre @ mid @ post" by (simp add: getContent_def)
  have a: "substring (pre @ mid @ post) 0 (int (length pre)) = pre"
    by (rule substring_prefix)
  have b: "substring (pre @ mid @ post) (int (length pre) + int (length mid))
             (int (length pre) + int (length mid) + int (length post)) = post"
    by (rule substring_suffix)
  have len: "int (length (pre @ mid @ post))
               = int (length pre) + int (length mid) + int (length post)"
    by simp
  show ?thesis
    unfolding replace_toggled_def Let_def getContent_def
    by (simp only: content_setCaretPos content_replaceContent c len a b)
qed

lemma replace_toggled_reads:
  "getSyntax (replace_toggled Z ed new s e c) = getSyntax ed"
  by (simp add: replace_toggled_def Let_def getSyntax_def replaceContent_def setCaretPos_def)

lemma createSelection_reads:
  "getSyntax (createSelection s e ed) = getSyntax ed"
  "getContent (createSelection s e ed) = getContent ed"
  "getSelectionRange (createSelection s e ed) = (s, e)"
  by (simp_all add: createSelection_def getSyntax_def getContent_def getSelectionRange_def)

lemma toggle_range_selection:
  "getSelectionRange ed = (s, e) \<Longrightarrow> s \<noteq> e \<Longrightarrow> toggle_range M ed = (s, e)"
  by (simp add: toggle_range_def)

lemma hasMatch_at_prefix:
  "hasMatch (pre @ w @ rest) w (int (length pre))"
  by (simp add: hasMatch_def substr_def)


lemma trim_all_space: "\<forall>c \<in> set zs. isSpace c \<Longrightarrow> trim zs = []"
  by (auto simp: trim_def dest: set_dropWhileD)

lemma trim_spaced: "trim ('' '' @ xs @ '' '') = trim xs"
proof (cases "\<forall>c \<in> set xs. isSpace c")
  case True
  then have "\<forall>c \<in> set ('' '' @ xs @ '' ''). isSpace c" by (simp add: isSpace_def)
  from trim_all_space[OF this] trim_all_space[OF True] show ?thesis by simp
next
  case False
  have sp: "isSpace CHR '' ''" by (simp add: isSpace_def)
  from False have "dropWhile isSpace (xs @ '' '') = dropWhile isSpace xs @ '' ''"
    by (auto simp: dropWhile_append1)
  with sp show ?thesis by (simp add: trim_def)
qed

text \<open>Toggling a selected comment removes its markers.\<close>

lemma toggleComment_selected_comment:
  assumes syn: "getSyntax ed \<in> {''html'', ''xml'', ''xhtml''}"
    and cont: "getContent ed = pre @ (''<!--'' @ ys @ ''-->'') @ post"
    and sel: "getSelectionRange ed
                = (int (length pre), int (length pre) + int (length (''<!--'' @ ys @ ''-->'')))"
  shows "toggleComment Z M ed =
           Some (Some True,
                 replace_toggled Z ed (trim ys) (int (length pre))
                   (int (length pre) + int (length (''<!--'' @ ys @ ''-->'')))
                   (getCaretPos ed - 4 - int (length (takeWhile isSpace ys))))"
proof -
  let ?s = "int (length pre)"
  let ?C = "''<!--'' @ ys @ ''-->''"
  have se: "?s \<noteq> ?s + int (length ?C)" by simp
  from toggle_range_selection[OF sel se]
  have rng: "toggle_range M ed = (?s, ?s + int (length ?C))" .
  have "hasMatch (pre @ ''<!--'' @ (ys @ ''-->'' @ post)) ''<!--'' ?s"
    by (rule hasMatch_at_prefix)
  with cont have hm: "hasMatch (getContent ed) ''<!--'' ?s" by simp
  from cont have sub: "substring (getContent ed) ?s (?s + int (length ?C)) = ?C"
    by (simp only: substring_mid)
  from rng se hm sub removeComment_marked[of ys "getCaretPos ed"]
  have "toggleHTMLComment Z M ed =
          Some (True, replace_toggled Z ed (trim ys) ?s (?s + int (length ?C))
                        (getCaretPos ed - 4 - int (length (takeWhile isSpace ys))))"
    by (simp add: toggleHTMLComment_def Let_def)
  from toggleComment_html[OF syn this] show ?thesis .
qed




text \<open>One line: \<open>unindent\<close> changes neither text, and the two calls give \<open>T\<close> without the
  white space at its two ends.\<close>

lemma set_strip_markers: "set (strip_markers str) \<subseteq> set str"
proof (induction str rule: strip_markers.induct)
  case (1 str)
  show ?case
  proof (cases "str = []")
    case True
    then show ?thesis by (subst strip_markers.simps) simp
  next
    case False
    show ?thesis
    proof (cases "marker_match str > 0")
      case True
      with False "1.IH"(1) have "set (strip_markers (drop (marker_match str) str)) \<subseteq> set (drop (marker_match str) str)"
        by simp
      also have "\<dots> \<subseteq> set str" by (rule set_drop_subset)
      finally show ?thesis using True False by (subst strip_markers.simps) simp
    next
      case nomatch: False
      with False "1.IH"(2) have "set (strip_markers (tl str)) \<subseteq> set (tl str)" by simp
      moreover from False have "set str = insert (hd str) (set (tl str))"
        by (cases str) auto
      ultimately show ?thesis using nomatch False by (subst strip_markers.simps) auto
    qed
  qed
qed

lemma takeWhile_isSpace_all: "c \<in> set (takeWhile isSpace xs) \<Longrightarrow> isSpace c"
  by (rule set_takeWhileD[THEN conjunct2])

lemma unindent_single:
  assumes "splitByLines Z t = [t]" and "t = [] \<or> \<not> isSpace (hd t)"
  shows "unindent Z ed t = t"
proof -
  let ?pad = "getCurrentLinePadding ed"
  have "(if take (length ?pad) t = ?pad then drop (length ?pad) t else t) = t"
  proof (cases "take (length ?pad) t = ?pad \<and> ?pad \<noteq> []")
    case True
    then obtain p ps where p: "?pad = p # ps" by (cases ?pad) auto
    then have "p \<in> set (takeWhile isSpace (getCurrentLine ed))"
      by (simp add: getCurrentLinePadding_def)
    then have sp: "isSpace p" by (rule takeWhile_isSpace_all)
    from True p have "t \<noteq> []" by auto
    with True p have "hd t = p" by (cases t) auto
    with sp assms(2) \<open>t \<noteq> []\<close> show ?thesis by simp
  next
    case False
    then show ?thesis by auto
  qed
  with assms(1) show ?thesis by (simp add: unindent_def Let_def)
qed

lemma split_lines_single: "\<forall>c \<in> set t. \<not> isNewline c \<Longrightarrow> split_lines t = [t]"
proof (induction t rule: split_lines.induct)
  case 1
  show ?case by simp
next
  case (2 c)
  then show ?case by simp
next
  case (3 c d cs)
  from "3.prems" have nc: "\<not> isNewline c" and rest: "\<forall>x \<in> set (d # cs). \<not> isNewline x"
    by simp_all
  from nc have ncr: "c \<noteq> CHR 0x0D" by (auto simp: isNewline_def)
  from ncr nc "3.IH"(3) rest have "split_lines (d # cs) = [d # cs]" by simp
  with ncr nc show ?case by simp
qed



lemma toggleComment_twice_one_line:
  assumes syn: "getSyntax ed \<in> {''html'', ''xml'', ''xhtml''}"
    and cont: "getContent ed = pre @ S @ post"
    and sel: "getSelectionRange ed = (int (length pre), int (length pre) + int (length S))"
    and ne: "S \<noteq> []"
    and nostart: "\<not> hasMatch (getContent ed) ''<!--'' (int (length pre))"
    and insertion:
      "\<not> (fst (enclosing_comment (getContent ed) (int (length pre))) < int (length pre)
          \<and> snd (enclosing_comment (getContent ed) (int (length pre)))
              > int (length pre) + int (length S))"
    and oneline: "\<forall>c \<in> set S. \<not> isNewline c"
    and split: "\<forall>t. (\<forall>c \<in> set t. \<not> isNewline c) \<longrightarrow> splitByLines Z t = [t]"
  shows "\<exists>ed1 ed2.
           toggleComment Z M ed = Some (Some True, ed1)
         \<and> getContent ed1 = pre @ (''<!-- '' @ strip_markers S @ '' -->'') @ post
         \<and> toggleComment Z M
               (createSelection (int (length pre))
                  (int (length pre) + int (length (''<!-- '' @ strip_markers S @ '' -->''))) ed1)
             = Some (Some True, ed2)
         \<and> getContent ed2 = pre @ trim (strip_markers S) @ post"
proof -
  let ?s = "int (length pre)"
  let ?e = "int (length pre) + int (length S)"
  let ?T = "strip_markers S"
  let ?W = "''<!-- '' @ ?T @ '' -->''"
  let ?C = "''<!--'' @ ('' '' @ ?T @ '' '') @ ''-->''"
  let ?ed1 = "replace_toggled Z ed ?W ?s ?e (getCaretPos ed + 5)"
  let ?sel1 = "createSelection ?s (?s + int (length ?W)) ?ed1"
  let ?cp = "getCaretPos ?sel1 - 4 - int (length (takeWhile isSpace ('' '' @ ?T @ '' '')))"
  let ?ed2 = "replace_toggled Z ?sel1 (trim ?T) ?s (?s + int (length ?W)) ?cp"
  have WC: "?W = ?C" by simp
  from ne have se: "?s \<noteq> ?e" by simp
  from toggle_range_selection[OF sel se] have rng: "toggle_range M ed = (?s, ?e)" .
  have s0: "0 \<le> ?s" by simp
  from cont have sub: "substring (getContent ed) ?s ?e = S"
    by (simp only: substring_mid)
  from toggleComment_insertion[OF syn rng se s0 nostart insertion, of Z]
  have t1: "toggleComment Z M ed = Some (Some True, ?ed1)"
    unfolding sub .
  from oneline set_strip_markers[of S] have lineT: "\<forall>c \<in> set ?T. \<not> isNewline c" by auto
  then have lineW: "\<forall>c \<in> set ?W. \<not> isNewline c" by (auto simp: isNewline_def)
  with split have "splitByLines Z ?W = [?W]" by blast
  moreover have "\<not> isSpace (hd ?W)" by (simp add: isSpace_def)
  ultimately have un1: "unindent Z ed' ?W = ?W" for ed'
    by (intro unindent_single) auto
  from getContent_replace_toggled[OF cont, of Z ?W "getCaretPos ed + 5"] un1
  have c1: "getContent ?ed1 = pre @ ?W @ post" by simp
  have sel1: "getSelectionRange ?sel1 = (?s, ?s + int (length ?C))"
    unfolding WC[symmetric] by (rule createSelection_reads)
  from c1 have c1': "getContent ?sel1 = pre @ ?C @ post"
    unfolding WC[symmetric] by (simp only: createSelection_reads)
  have syn1: "getSyntax ?sel1 \<in> {''html'', ''xml'', ''xhtml''}"
    using syn by (simp only: createSelection_reads replace_toggled_reads)
  from toggleComment_selected_comment[OF syn1 c1' sel1, of Z M]
  have t2: "toggleComment Z M ?sel1 = Some (Some True, ?ed2)"
    unfolding WC[symmetric] trim_spaced .
  from lineT set_trim[of ?T] have "\<forall>c \<in> set (trim ?T). \<not> isNewline c" by auto
  with split have "splitByLines Z (trim ?T) = [trim ?T]" by blast
  with trim_hd[of ?T] have un2: "unindent Z ed' (trim ?T) = trim ?T" for ed'
    by (intro unindent_single) auto
  from getContent_replace_toggled[OF c1', of Z "trim ?T" ?cp] un2
  have c2: "getContent ?ed2 = pre @ trim ?T @ post"
    unfolding WC[symmetric] by simp
  from t1 c1 t2 c2 show ?thesis by blast
qed

subsection \<open>Merging lines\<close>

text \<open>On a selection, \<open>mergeLines\<close> replaces it by the merged text and selects that.\<close>

lemma mergeLines_selection:
  assumes "getSelectionRange ed = (s, e)" and "s \<noteq> e"
  shows "mergeLines Z M lm ed =
           (let text = collapse_first_run (concat
                         (case splitByLines Z (substring (getContent ed) s e) of
                            [] \<Rightarrow> []
                          | l # ls \<Rightarrow> l # map (dropWhile isSpace) ls))
            in (createSelection s (s + int (length text)) (replaceContent text s e ed), lm))"
  using assms by (simp add: mergeLines_def Let_def)

text \<open>The replacement of white-space runs leaves a text with no run as it is, and in a
  text with one it replaces the first run and keeps all that follows it, later runs
  too.\<close>

lemma collapse_first_run_none: "\<not> has_run xs \<Longrightarrow> collapse_first_run xs = xs"
  by (induction xs rule: collapse_first_run.induct) auto

lemma collapse_first_run_at_run:
  assumes "isSpace a" and "isSpace b" and "\<forall>c \<in> set ws. isSpace c"
    and "ys = [] \<or> \<not> isSpace (hd ys)"
  shows "collapse_first_run (a # b # ws @ ys) = CHR '' '' # ys"
proof -
  from assms(3,4) have "dropWhile isSpace (ws @ ys) = ys"
    by (cases ys) (auto simp: dropWhile_append2)
  with assms(1,2) show ?thesis by simp
qed

lemma collapse_first_run_first:
  assumes "\<not> has_run xs" and "xs = [] \<or> \<not> isSpace (last xs)"
    and "isSpace a" and "isSpace b" and "\<forall>c \<in> set ws. isSpace c"
    and "ys = [] \<or> \<not> isSpace (hd ys)"
  shows "collapse_first_run (xs @ a # b # ws @ ys) = xs @ CHR '' '' # ys"
  using assms(1,2)
proof (induction xs rule: collapse_first_run.induct)
  case 1
  from collapse_first_run_at_run[OF assms(3-6)] show ?case by simp
next
  case (2 c)
  then have "\<not> isSpace c" by simp
  with collapse_first_run_at_run[OF assms(3-6)] show ?case by simp
next
  case (3 c d cs)
  from "3.prems"(1) have nr: "\<not> (isSpace c \<and> isSpace d)" and rest: "\<not> has_run (d # cs)"
    by simp_all
  from "3.prems"(2) have "d # cs = [] \<or> \<not> isSpace (last (d # cs))" by simp
  with "3.IH" nr rest show ?case by auto
qed

text \<open>
  C1, at the selection \<open>a  b   c\<close> (two spaces, then three): \<open>mergeLines\<close> replaces the
  first run of white space by one space and keeps the second run of three.
\<close>

theorem mergeLines_collapses_first_run_only:
  "mergeLines zen_coding_spec null_matcher no_match (editor_at ''a  b   c'' 0 8 8 ''html'')
     = (\<lparr>content = ''a b   c'', sel_start = 0, sel_end = 7, caret = 7, syn = ''html'',
          calls = [ReplaceContent ''a b   c'' 0 8, CreateSelection 0 7]\<rparr>, no_match)"
  by code_simp

subsection \<open>Tag pairs\<close>

text \<open>
  C6. \<open>matchPair\<close> is in inward mode when the direction is \<open>in\<close> (in any case of the
  letters), a match is cached and the selection is not empty: the test of its first
  \<open>if\<close>. In inward mode, when the cached match has an opening tag and no closing tag,
  \<open>matchPair\<close> returns \<open>false\<close>, selects nothing and leaves the editor and the cache as
  they were, whatever the document and the selection.
\<close>

theorem matchPair_in_unary:
  assumes "toLowerCase d = ''in''"
    and "opening_tag lm = Some t"
    and "closing_tag lm = None"
    and "fst (getSelectionRange ed) \<noteq> snd (getSelectionRange ed)"
  shows "matchPair M (Some d) lm ed = (False, ed, lm)"
proof -
  from assms(1) have "d \<noteq> []" by (auto simp: toLowerCase_def)
  with assms show ?thesis
    by (simp add: matchPair_def Let_def split_def)
qed

theorem matchPair_in_unary_witness:
  "toLowerCase ''IN'' = ''in''
   \<and> opening_tag br_match = Some br_tag
   \<and> closing_tag br_match = None
   \<and> fst (getSelectionRange (editor_at ''<br/>'' 0 5 5 ''html'')) = 0
   \<and> snd (getSelectionRange (editor_at ''<br/>'' 0 5 5 ''html'')) = 5
   \<and> matchPair br_matcher (Some ''IN'') br_match (editor_at ''<br/>'' 0 5 5 ''html'')
     = (False, editor_at ''<br/>'' 0 5 5 ''html'', br_match)"
proof -
  have h1: "toLowerCase ''IN'' = ''in''"
    by code_simp
  have h2: "opening_tag br_match = Some br_tag" and h3: "closing_tag br_match = None"
    by (simp_all add: br_match_def)
  have h4: "fst (getSelectionRange (editor_at ''<br/>'' 0 5 5 ''html''))
              \<noteq> snd (getSelectionRange (editor_at ''<br/>'' 0 5 5 ''html''))"
    by (simp add: getSelectionRange_def editor_at_def)
  from h1 h2 h3 matchPair_in_unary [OF h1 h2 h3 h4, of br_matcher]
  show ?thesis by (simp add: getSelectionRange_def editor_at_def)
qed

text \<open>With an empty selection the inward mode is not entered, whatever the direction:
  \<open>matchPair\<close> does what it does with no direction given, and asks the matcher at the
  caret. So it does on \<open><br/>\<close> with the caret at 2 and the unary tag cached.\<close>

lemma matchPair_empty_selection:
  "fst (getSelectionRange ed) = snd (getSelectionRange ed) \<Longrightarrow>
     matchPair M d lm ed = matchPair M None lm ed"
  by (simp add: matchPair_def Let_def split_def split: option.splits)

lemma matchPair_in_unary_empty_selection:
  "matchPair br_matcher (Some ''in'') br_match (editor_at ''<br/>'' 2 2 2 ''html'')
     = (True,
        \<lparr>content = ''<br/>'', sel_start = 0, sel_end = 5, caret = 5, syn = ''html'',
           calls = [CreateSelection 0 5]\<rparr>,
        br_match)"
  by code_simp

end
